theory Spec2Isabelle
  imports Complex_Main
begin

section \<open>Check runs, statuses and conclusions\<close>

text \<open>
  A check run as \<^verbatim>\<open>cli.py\<close> reads it: the four attributes \<^verbatim>\<open>id\<close>, \<^verbatim>\<open>name\<close>,
  \<^verbatim>\<open>status\<close> and \<^verbatim>\<open>conclusion\<close> of a PyGithub \<^verbatim>\<open>CheckRun\<close>. The conclusion of a run
  that has not completed is \<^verbatim>\<open>None\<close>. The field \<^verbatim>\<open>id\<close> is written \<open>id'\<close>, since \<open>id\<close> is
  the identity function of HOL.
\<close>

record CheckRun =
  id' :: int
  name :: string
  status :: string
  conclusion :: "string option"

text \<open>Class \<^verbatim>\<open>Status\<close> (lines 54--65).\<close>

abbreviation Status_queued :: string where "Status_queued \<equiv> ''queued''"
abbreviation Status_in_progress :: string where "Status_in_progress \<equiv> ''in_progress''"
abbreviation Status_completed :: string where "Status_completed \<equiv> ''completed''"

definition Status_complete :: "string list" where
  "Status_complete = [Status_completed]"

definition Status_incomplete :: "string list" where
  "Status_incomplete = [Status_queued, Status_in_progress]"

text \<open>Class \<^verbatim>\<open>Conclusion\<close> (lines 68--104).\<close>

abbreviation Conclusion_action_required :: string where
  "Conclusion_action_required \<equiv> ''action_required''"
abbreviation Conclusion_cancelled :: string where "Conclusion_cancelled \<equiv> ''cancelled''"
abbreviation Conclusion_timed_out :: string where "Conclusion_timed_out \<equiv> ''timed_out''"
abbreviation Conclusion_failure :: string where "Conclusion_failure \<equiv> ''failure''"
abbreviation Conclusion_failed :: string where "Conclusion_failed \<equiv> ''failed''"
abbreviation Conclusion_neutral :: string where "Conclusion_neutral \<equiv> ''neutral''"
abbreviation Conclusion_skipped :: string where "Conclusion_skipped \<equiv> ''skipped''"
abbreviation Conclusion_stale :: string where "Conclusion_stale \<equiv> ''stale''"
abbreviation Conclusion_startup_failure :: string where
  "Conclusion_startup_failure \<equiv> ''startup_failure''"
abbreviation Conclusion_success :: string where "Conclusion_success \<equiv> ''success''"

definition Conclusion_ignored :: "string list" where
  "Conclusion_ignored = [Conclusion_neutral, Conclusion_skipped]"

definition Conclusion_fail :: "string list" where
  "Conclusion_fail =
     [Conclusion_action_required, Conclusion_cancelled, Conclusion_timed_out,
      Conclusion_failure, Conclusion_failed, Conclusion_stale, Conclusion_startup_failure]"

definition Conclusion_succeeded :: "string list" where
  "Conclusion_succeeded = [Conclusion_success]"

section \<open>Exceptions and log output\<close>

text \<open>
  The exceptions that can travel through \<^verbatim>\<open>hello\<close>. \<open>Enforcer\<close> is the class of line 154;
  \<open>Exception\<close> carries the message of the plain \<^verbatim>\<open>Exception\<close> of lines 249 and 259;
  \<open>SourceError\<close> stands for whatever the GitHub client raises (it cannot be an
  \<open>Enforcer\<close>, a class the client does not know); \<open>RetryError\<close> is raised by the retry
  decorator, \<open>ValueError\<close> by \<^verbatim>\<open>time.sleep\<close> on a negative argument, \<open>IndexError\<close> by
  \<^verbatim>\<open>runs[0]\<close> on an empty list, \<open>AttributeError\<close> by a method call on \<^verbatim>\<open>None\<close> and
  \<open>OSError\<close> by \<^verbatim>\<open>open\<close> on a file that cannot be opened.
\<close>

datatype exn =
    Enforcer
  | Exception string
  | SourceError string
  | RetryError
  | ValueError
  | IndexError
  | AttributeError
  | OSError

text \<open>
  Every call of the logger is an event that keeps the level and the values the message
  interpolates; colour codes and markers only decorate the text and are left out.
  \<open>Append\<close> is the \<^verbatim>\<open>print\<close> into the file named by \<^verbatim>\<open>GITHUB_STEP_SUMMARY\<close>.
\<close>

datatype level = DEBUG | INFO | ERROR | FATAL

datatype pyval = PyNone | PyStr string | PyInt int | PyBool bool

datatype message =
    Text string
  | Config string pyval
  | Statistics nat
  | Attempt nat
  | RunState string string "string option"
  | GroupCounts "(string \<times> nat) list"
  | Count string nat
  | RunName string
  | TotalCompletion nat
  | FailedExecutions "string list"
  | RetryIn int
  | Table "(string \<times> string \<times> string option) list"

datatype event = Log level message | Append string message

section \<open>The helpers of \<^verbatim>\<open>cli.py\<close>\<close>

text \<open>\<^verbatim>\<open>_run.conclusion in conclusions\<close>: \<^verbatim>\<open>None\<close> is in no list of strings.\<close>

definition conclusion_in :: "string list \<Rightarrow> CheckRun \<Rightarrow> bool" where
  "conclusion_in conclusions run =
     (case conclusion run of None \<Rightarrow> False | Some c \<Rightarrow> c \<in> set conclusions)"

text \<open>\<^verbatim>\<open>filter_and_log_by_conclusion\<close> (lines 107--114): the runs kept and what is logged.\<close>

definition filter_and_log_by_conclusion ::
  "CheckRun list \<Rightarrow> string list \<Rightarrow> string \<Rightarrow> CheckRun list \<times> event list" where
  "filter_and_log_by_conclusion complete' conclusions verb =
     (let runs = filter (conclusion_in conclusions) complete'
      in (runs, Log INFO (Count verb (length runs)) # map (\<lambda>run. Log DEBUG (RunName (name run))) runs))"

text \<open>\<^verbatim>\<open>filter_and_log_by_status\<close> (lines 117--122).\<close>

definition filter_and_log_by_status ::
  "CheckRun list \<Rightarrow> string list \<Rightarrow> string \<Rightarrow> CheckRun list \<times> event list" where
  "filter_and_log_by_status runs statuses verb =
     (let runs' = filter (\<lambda>run. status run \<in> set statuses) runs
      in (runs', Log INFO (Count verb (length runs')) # map (\<lambda>run. Log DEBUG (RunName (name run))) runs'))"

subsection \<open>\<^verbatim>\<open>reduce_to_latest_runs\<close> (lines 125--138)\<close>

text \<open>
  \<^verbatim>\<open>groups\<close> is a \<^verbatim>\<open>defaultdict(list)\<close>; a Python dict keeps its keys in insertion
  order, so it is an association list here. \<open>group_append\<close> is
  \<^verbatim>\<open>groups[run.name].append(run)\<close>: the run goes to the end of its name's list, and a
  name seen for the first time becomes the last key.
\<close>

fun group_append :: "(string \<times> CheckRun list) list \<Rightarrow> CheckRun \<Rightarrow> (string \<times> CheckRun list) list" where
  "group_append [] run = [(name run, [run])]"
| "group_append ((k, v) # groups) run =
     (if k = name run then (k, v @ [run]) # groups else (k, v) # group_append groups run)"

definition group_runs :: "CheckRun list \<Rightarrow> (string \<times> CheckRun list) list" where
  "group_runs check_runs = foldl group_append [] check_runs"

text \<open>
  The second loop: \<^verbatim>\<open>runs.sort(key=lambda vs: vs.id, reverse=True)\<close> is a stable sort by
  descending id, which is the stable ascending sort by the negated id; \<^verbatim>\<open>runs[0]\<close>
  raises \<^verbatim>\<open>IndexError\<close> on an empty list.
\<close>

fun latest_of_groups :: "(string \<times> CheckRun list) list \<Rightarrow> exn + CheckRun list" where
  "latest_of_groups [] = Inr []"
| "latest_of_groups ((k, runs) # groups) =
     (case sort_key (\<lambda>vs. - id' vs) runs of
        [] \<Rightarrow> Inl IndexError
      | run # _ \<Rightarrow>
          (case latest_of_groups groups of
             Inl e \<Rightarrow> Inl e
           | Inr latest_runs \<Rightarrow> Inr (run # latest_runs)))"

definition run_state :: "CheckRun \<Rightarrow> event" where
  "run_state run = Log DEBUG (RunState (name run) (status run) (conclusion run))"

definition reduce_to_latest_runs :: "CheckRun list \<Rightarrow> (exn + CheckRun list) \<times> event list" where
  "reduce_to_latest_runs check_runs =
     (let groups = group_runs check_runs;
          log1 = [Log DEBUG (Text ''Logging Run Check counts grouped''),
                  Log DEBUG (GroupCounts (map (\<lambda>(k, v). (k, length v)) groups))]
      in case latest_of_groups groups of
           Inl e \<Rightarrow> (Inl e, log1)
         | Inr latest_runs \<Rightarrow>
             (Inr latest_runs,
              log1 @ Log DEBUG (Text ''Logging Latest Checks'') # map run_state latest_runs))"

text \<open>
  What \<^verbatim>\<open>log_summary\<close> reads from the operating system: the environment variable
  \<^verbatim>\<open>GITHUB_STEP_SUMMARY\<close>, and whether \<^verbatim>\<open>open(path, "a")\<close> on its value raises
  \<^verbatim>\<open>OSError\<close> (a directory that does not exist, a file that may not be written).
\<close>

record os_environ =
  GITHUB_STEP_SUMMARY :: "string option"
  open_fails :: bool

text \<open>
  \<^verbatim>\<open>log_summary\<close> (lines 141--151): one row per run. When the variable is set and not
  empty the file it names is opened for appending and the table is printed into it; a
  failing \<^verbatim>\<open>open\<close> raises and nothing is written. Otherwise the table is logged at level
  DEBUG.
\<close>

definition log_summary :: "os_environ \<Rightarrow> CheckRun list \<Rightarrow> exn + event list" where
  "log_summary env runs =
     (let table = Table (map (\<lambda>run. (name run, status run, conclusion run)) runs)
      in case GITHUB_STEP_SUMMARY env of
           None \<Rightarrow> Inr [Log DEBUG table]
         | Some path \<Rightarrow>
             if path = [] then Inr [Log DEBUG table]
             else if open_fails env then Inl OSError
             else Inr [Append path table])"

section \<open>One poll: the body of \<^verbatim>\<open>poll_vault\<close> (lines 198--260)\<close>

text \<open>
  What the closure \<^verbatim>\<open>poll_vault\<close> reads from \<^verbatim>\<open>hello\<close> and from the environment.
\<close>

record closure =
  user_ignore :: "string option list"
  interval :: int
  timeout :: int
  exhaustive :: bool
  environ :: os_environ

datatype outcome = Return "CheckRun list" | Raise exn

abbreviation Failed_Executions_Detected :: outcome where
  "Failed_Executions_Detected \<equiv> Raise (Exception ''Failed Executions Detected, bailing out'')"

text \<open>Line 214: \<^verbatim>\<open>r.name not in user_ignore\<close>; the list may hold \<^verbatim>\<open>None\<close>.\<close>

definition not_ignored :: "string option list \<Rightarrow> CheckRun list \<Rightarrow> CheckRun list" where
  "not_ignored ignore_list latest_runs = filter (\<lambda>r. Some (name r) \<notin> set ignore_list) latest_runs"

text \<open>Line 223.\<close>

definition complete_runs :: "CheckRun list \<Rightarrow> CheckRun list" where
  "complete_runs runs = filter (\<lambda>run. status run \<in> set Status_complete) runs"

text \<open>
  Lines 215--242: the four lists the poll computes. The source keeps \<^verbatim>\<open>incomplete\<close> and
  \<^verbatim>\<open>failed_runs\<close> and only logs the other two; the record holds all four.
\<close>

record ClassifiedBatch =
  incomplete :: "CheckRun list"
  ignored :: "CheckRun list"
  succeeded :: "CheckRun list"
  failed :: "CheckRun list"

definition classify :: "CheckRun list \<Rightarrow> ClassifiedBatch \<times> event list" where
  "classify runs =
     (let (incomplete_runs, log1) =
            filter_and_log_by_status runs Status_incomplete ''Waiting on completion'';
          complete' = complete_runs runs;
          log2 = [Log INFO (TotalCompletion (length complete'))];
          (ignored_runs, log3) =
            filter_and_log_by_conclusion complete' Conclusion_ignored ''Ignored completion'';
          (succeeded_runs, log4) =
            filter_and_log_by_conclusion complete' Conclusion_succeeded ''Celebrated completion'';
          (failed_runs, log5) =
            filter_and_log_by_conclusion complete' Conclusion_fail ''Mourned failure''
      in (\<lparr>incomplete = incomplete_runs, ignored = ignored_runs,
           succeeded = succeeded_runs, failed = failed_runs\<rparr>,
          log1 @ log2 @ log3 @ log4 @ log5))"

text \<open>
  Lines 248--249 and 258--259: \<^verbatim>\<open>log_summary(latest_runs)\<close>, then the plain exception. An
  exception of \<^verbatim>\<open>log_summary\<close> leaves the poll in its place.
\<close>

definition summary_then_raise :: "closure \<Rightarrow> CheckRun list \<Rightarrow> event list \<Rightarrow> outcome \<times> event list" where
  "summary_then_raise c latest_runs log1 =
     (case log_summary (environ c) latest_runs of
        Inl e \<Rightarrow> (Raise e, log1)
      | Inr evs \<Rightarrow> (Failed_Executions_Detected, log1 @ evs))"

text \<open>Lines 244--260, in the order of the source.\<close>

definition decide ::
  "closure \<Rightarrow> CheckRun list \<Rightarrow> CheckRun list \<Rightarrow> ClassifiedBatch \<Rightarrow> outcome \<times> event list" where
  "decide c latest_runs runs batch =
     (let failed_state = (failed batch \<noteq> []);
          log1 = (if failed batch \<noteq> []
                  then [Log FATAL (FailedExecutions (map name (failed batch)))] else [])
      in if failed batch \<noteq> [] \<and> \<not> exhaustive c
         then summary_then_raise c latest_runs log1
         else if incomplete batch \<noteq> []
         then (Raise Enforcer, log1 @ [Log INFO (RetryIn (interval c))])
         else if failed_state
         then summary_then_raise c latest_runs log1
         else (Return runs, log1))"

text \<open>
  The whole body. \<open>fetched\<close> is what \<^verbatim>\<open>list(commit.get_check_runs())\<close> gives on this
  attempt: the runs, or the error the client raises.
\<close>

definition poll_vault :: "closure \<Rightarrow> nat \<Rightarrow> string + CheckRun list \<Rightarrow> outcome \<times> event list" where
  "poll_vault c n fetched =
     (let log0 = [Log DEBUG (Statistics n), Log INFO (Attempt n),
                  Log INFO (Text ''GitHub: Fetching Check Runs'')]
      in case fetched of
           Inl e \<Rightarrow> (Raise (SourceError e), log0)
         | Inr check_runs \<Rightarrow>
             (let log1 = Log DEBUG (Text ''Logging All Checks'') # map run_state check_runs;
                  (reduced, log2) = reduce_to_latest_runs check_runs
              in case reduced of
                   Inl e \<Rightarrow> (Raise e, log0 @ log1 @ log2)
                 | Inr latest_runs \<Rightarrow>
                     (let runs = not_ignored (user_ignore c) latest_runs;
                          (batch, log3) = classify runs;
                          (out, log4) = decide c latest_runs runs batch
                      in (out, log0 @ log1 @ log2 @ log3 @ log4))))"

section \<open>The retry decorator (line 197)\<close>

text \<open>
  \<^verbatim>\<open>@retry(stop=stop_after_delay(timeout), wait=wait_fixed(interval),
  retry=retry_if_exception_type(Enforcer))\<close> of the tenacity library: the function is
  called; an outcome other than an \<open>Enforcer\<close> exception is passed on at once; after an
  \<open>Enforcer\<close> the decorator raises \<open>RetryError\<close> if the time since the first attempt
  began has reached \<^verbatim>\<open>timeout\<close> seconds, and otherwise sleeps \<^verbatim>\<open>interval\<close> seconds
  (\<^verbatim>\<open>time.sleep\<close> raises \<open>ValueError\<close> on a negative number) and calls again.

  Time is a real number of seconds since the first attempt began. The source of check
  runs tells, for the n-th attempt, how long the attempt takes and what the fetch gives;
  a sleep that lasts longer than asked counts with the attempt that follows it.
\<close>

type_synonym source = "nat \<Rightarrow> real \<times> (string + CheckRun list)"

record retry_state =
  attempt_number :: nat
  started :: real
  now :: real
  logged :: "event list"

datatype step = Done outcome retry_state | Sleep retry_state

definition attempt :: "closure \<Rightarrow> source \<Rightarrow> retry_state \<Rightarrow> step" where
  "attempt c src s =
     (let (d, fetched) = src (attempt_number s);
          (out, evs) = poll_vault c (attempt_number s) fetched;
          s' = s\<lparr>started := now s, now := now s + d, logged := logged s @ evs\<rparr>
      in if out \<noteq> Raise Enforcer then Done out s'
         else if real_of_int (timeout c) \<le> now s' then Done (Raise RetryError) s'
         else if interval c < 0 then Done (Raise ValueError) s'
         else Sleep (s'\<lparr>attempt_number := attempt_number s + 1,
                         now := now s' + real_of_int (interval c)\<rparr>))"

text \<open>
  The \<^verbatim>\<open>while True\<close> of the decorator may go on for ever (an interval of 0 and attempts
  that take no time), so the loop has fuel: \<open>None\<close> is "not finished within \<open>fuel\<close>
  attempts".
\<close>

fun retry_loop :: "nat \<Rightarrow> closure \<Rightarrow> source \<Rightarrow> retry_state \<Rightarrow> (outcome \<times> retry_state) option" where
  "retry_loop 0 c src s = None"
| "retry_loop (Suc fuel) c src s =
     (case attempt c src s of
        Done out s' \<Rightarrow> Some (out, s')
      | Sleep s' \<Rightarrow> retry_loop fuel c src s')"

definition begin_state :: "event list \<Rightarrow> retry_state" where
  "begin_state evs = \<lparr>attempt_number = 1, started = 0, now = 0, logged = evs\<rparr>"

section \<open>The command \<^verbatim>\<open>hello\<close> (lines 168--269)\<close>

text \<open>
  \<^verbatim>\<open>str.strip\<close> and \<^verbatim>\<open>str.split(",")\<close>. A \<open>char\<close> is a code point below 256; the
  white space of Python among those is 9--13, 28--32, 133 and 160.
\<close>

definition isspace :: "char \<Rightarrow> bool" where
  "isspace ch = ((of_char ch :: nat) \<in> set [9, 10, 11, 12, 13, 28, 29, 30, 31, 32, 133, 160])"

definition strip :: "string \<Rightarrow> string" where
  "strip s = rev (dropWhile isspace (rev (dropWhile isspace s)))"

fun split_acc :: "string \<Rightarrow> string \<Rightarrow> string list" where
  "split_acc w [] = [w]"
| "split_acc w (ch # s) =
     (if ch = CHR '','' then w # split_acc [] s else split_acc (w @ [ch]) s)"

definition split_comma :: "string \<Rightarrow> string list" where
  "split_comma s = split_acc [] s"

text \<open>Lines 179--185: the list the polls filter with.\<close>

definition build_user_ignore :: "string \<Rightarrow> string option \<Rightarrow> string option list" where
  "build_user_ignore ignore_arg name_arg = map (Some \<circ> strip) (split_comma ignore_arg) @ [name_arg]"

text \<open>
  The GitHub side. \<open>connect_error = Some (k, e)\<close>: the k-th of the four steps of lines
  187--195 (authenticating, fetching repository, branch, commit) raises \<open>e\<close>; \<open>get_check_runs\<close>
  is the source that the polls read.
\<close>

record github =
  connect_error :: "(nat \<times> string) option"
  get_check_runs :: source

datatype exit = Returned | Uncaught exn | SystemExit int

record run =
  result :: exit
  polls :: nat
  written :: "event list"

text \<open>The logger passes a DEBUG message only under \<^verbatim>\<open>--debug\<close> (lines 35--41).\<close>

definition visible :: "bool \<Rightarrow> event list \<Rightarrow> event list" where
  "visible debug evs = filter (\<lambda>e. debug \<or> (case e of Log DEBUG _ \<Rightarrow> False | _ \<Rightarrow> True)) evs"

definition opt_str :: "string option \<Rightarrow> pyval" where
  "opt_str v = (case v of None \<Rightarrow> PyNone | Some s \<Rightarrow> PyStr s)"

definition config_log ::
  "string \<Rightarrow> string \<Rightarrow> int \<Rightarrow> int \<Rightarrow> string option \<Rightarrow> string option \<Rightarrow> bool \<Rightarrow> bool \<Rightarrow> event list" where
  "config_log repository branch interval_arg timeout_arg name_arg ignore_arg exhaustive_arg debug =
     [Log INFO (Text ''Using config:''),
      Log INFO (Config ''repository'' (PyStr repository)),
      Log INFO (Config ''branch'' (PyStr branch)),
      Log INFO (Config ''interval'' (PyInt interval_arg)),
      Log INFO (Config ''timeout'' (PyInt timeout_arg)),
      Log INFO (Config ''name'' (opt_str name_arg)),
      Log INFO (Config ''ignore'' (opt_str ignore_arg)),
      Log INFO (Config ''exhaustive'' (PyBool exhaustive_arg)),
      Log INFO (Config ''debug'' (PyBool debug)),
      Log DEBUG (Config ''pr-enforcer log level set to'' (PyInt (if debug then 10 else 20)))]"

definition connect_log :: "event list" where
  "connect_log =
     [Log INFO (Text ''GitHub: Authenticating''), Log INFO (Text ''GitHub: Fetching Repo''),
      Log INFO (Text ''GitHub: Fetching Branch''), Log INFO (Text ''GitHub: Fetching Commit'')]"

definition review_logs :: "bool \<Rightarrow> event" where
  "review_logs debug =
     Log (if debug then ERROR else FATAL)
       (Text ''::error title=PR Checks Failed::Failed due to previously reported error. Review logs'')"

text \<open>
  \<open>hello\<close> with \<open>fuel\<close> for the polling; \<open>env\<close> is what \<^verbatim>\<open>log_summary\<close> reads from the
  operating system.
  The token is only handed to the client and does not appear. An exception that leaves
  \<^verbatim>\<open>poll_vault\<close> is caught (line 264) and the process exits with 1; one raised before
  the \<^verbatim>\<open>try\<close> is not caught.
\<close>

definition hello ::
  "nat \<Rightarrow> github \<Rightarrow> os_environ \<Rightarrow> string \<Rightarrow> string \<Rightarrow> int \<Rightarrow> int \<Rightarrow> string option \<Rightarrow>
   string option \<Rightarrow> bool \<Rightarrow> bool \<Rightarrow> run option" where
  "hello fuel gh env repository branch interval_arg timeout_arg name_arg ignore_arg exhaustive_arg debug =
     (let log0 = config_log repository branch interval_arg timeout_arg name_arg ignore_arg
                   exhaustive_arg debug
      in case ignore_arg of
           None \<Rightarrow> Some \<lparr>result = Uncaught AttributeError, polls = 0, written = visible debug log0\<rparr>
         | Some ignore_str \<Rightarrow>
             (let stripped = map strip (split_comma ignore_str);
                  ignore_list = build_user_ignore ignore_str name_arg;
                  log1 = log0 @ Log DEBUG (Text ''User Ignore:'')
                           # map (\<lambda>ui. Log DEBUG (Text ui)) stripped @ [Log DEBUG (Text [])]
              in case connect_error gh of
                   Some (k, e) \<Rightarrow>
                     Some \<lparr>result = Uncaught (SourceError e), polls = 0,
                           written = visible debug (log1 @ take k connect_log)\<rparr>
                 | None \<Rightarrow>
                     (let c = \<lparr>user_ignore = ignore_list, interval = interval_arg,
                               timeout = timeout_arg, exhaustive = exhaustive_arg,
                               environ = env\<rparr>
                      in case retry_loop fuel c (get_check_runs gh) (begin_state (log1 @ connect_log)) of
                           None \<Rightarrow> None
                         | Some (Return runs, s) \<Rightarrow>
                             Some \<lparr>result = Returned, polls = attempt_number s,
                                   written = visible debug (logged s)\<rparr>
                         | Some (Raise e, s) \<Rightarrow>
                             Some \<lparr>result = SystemExit 1, polls = attempt_number s,
                                   written = visible debug (logged s @ [review_logs debug])\<rparr>)))"

section \<open>Reading the output\<close>

text \<open>
  The summary tables in a list of events: what \<^verbatim>\<open>log_summary\<close> appended to the step
  summary file or logged. \<open>summary_unwritable\<close> says that \<^verbatim>\<open>log_summary\<close> has a file to
  append to and cannot open it.
\<close>

definition summary_unwritable :: "os_environ \<Rightarrow> bool" where
  "summary_unwritable env =
     (case GITHUB_STEP_SUMMARY env of None \<Rightarrow> False | Some path \<Rightarrow> path \<noteq> [] \<and> open_fails env)"




section \<open>Example inputs\<close>

text \<open>The runs of the example in the specification, an unrecognised conclusion, an ignored name.\<close>

definition runA :: CheckRun where
  "runA = \<lparr>id' = 1, name = ''X'', status = ''completed'', conclusion = Some ''success''\<rparr>"

definition runB :: CheckRun where
  "runB = \<lparr>id' = 5, name = ''X'', status = ''in_progress'', conclusion = None\<rparr>"

definition runC :: CheckRun where
  "runC = \<lparr>id' = 3, name = ''Y'', status = ''completed'', conclusion = Some ''failure''\<rparr>"

definition runU :: CheckRun where
  "runU = \<lparr>id' = 7, name = ''Z'', status = ''completed'', conclusion = Some ''mystery''\<rparr>"

definition runL :: CheckRun where
  "runL = \<lparr>id' = 9, name = ''label'', status = ''queued'', conclusion = None\<rparr>"

text \<open>
  An interval of 10 seconds and a timeout of 25 seconds, with no step summary file; the
  same with a step summary file in a directory that does not exist, and with one that
  can be opened.
\<close>

definition closure0 :: closure where
  "closure0 = \<lparr>user_ignore = [Some ''label'', Some ''enforce-all-checks''], interval = 10, timeout = 25,
                exhaustive = False,
                environ = \<lparr>GITHUB_STEP_SUMMARY = None, open_fails = False\<rparr>\<rparr>"

definition closure_nodir :: closure where
  "closure_nodir =
     closure0\<lparr>environ := \<lparr>GITHUB_STEP_SUMMARY = Some ''nodir/summary.md'', open_fails = True\<rparr>\<rparr>"


definition batchFI :: ClassifiedBatch where
  "batchFI = \<lparr>incomplete = [runB], ignored = [], succeeded = [], failed = [runC]\<rparr>"

definition batchF :: ClassifiedBatch where
  "batchF = \<lparr>incomplete = [], ignored = [], succeeded = [runA], failed = [runC]\<rparr>"

definition batchS :: ClassifiedBatch where
  "batchS = \<lparr>incomplete = [], ignored = [], succeeded = [runA], failed = []\<rparr>"

text \<open>
  Sources whose every attempt takes a fifth of a second: one that always reports the
  same run in progress, one whose only run has succeeded, one whose only run has failed,
  and one that fails with a transport error.
\<close>

definition always_incomplete :: source where
  "always_incomplete n = (1 / 5, Inr [runB])"

definition all_green :: source where
  "all_green n = (1 / 5, Inr [runA])"


definition bad_gateway :: source where
  "bad_gateway n = (1 / 5, Inl ''502 Bad Gateway'')"

section \<open>Deduplication\<close>

lemma group_append_keys:
  "map fst (group_append gs r) =
     (if name r \<in> fst ` set gs then map fst gs else map fst gs @ [name r])"
  by (induction gs r rule: group_append.induct) auto

lemma group_append_map_of:
  "map_of (group_append gs r) =
     (map_of gs)(name r \<mapsto> (case map_of gs (name r) of None \<Rightarrow> [r] | Some v \<Rightarrow> v @ [r]))"
  by (induction gs r rule: group_append.induct) (auto simp: fun_eq_iff)

lemma group_runs_snoc: "group_runs (rs @ [r]) = group_append (group_runs rs) r"
  by (simp add: group_runs_def)

lemma group_runs_keys:
  "distinct (map fst (group_runs rs)) \<and> fst ` set (group_runs rs) = name ` set rs"
proof (induction rs rule: rev_induct)
  case Nil
  show ?case by (simp add: group_runs_def)
next
  case (snoc r rs)
  have "set (map fst (group_append (group_runs rs) r)) = insert (name r) (name ` set rs)"
    using snoc by (auto simp: group_append_keys)
  moreover have "distinct (map fst (group_append (group_runs rs) r))"
    using snoc by (simp add: group_append_keys)
  ultimately show ?case by (simp add: group_runs_snoc)
qed

lemma group_runs_map_of:
  "map_of (group_runs rs) k =
     (if k \<in> name ` set rs then Some (filter (\<lambda>r. name r = k) rs) else None)"
proof (induction rs rule: rev_induct)
  case Nil
  show ?case by (simp add: group_runs_def)
next
  case (snoc r rs)
  show ?case
  proof (cases "k = name r")
    case True
    show ?thesis
    proof (cases "name r \<in> name ` set rs")
      case True
      with \<open>k = name r\<close> snoc show ?thesis
        by (simp add: group_runs_snoc group_append_map_of)
    next
      case False
      then have "\<forall>x \<in> set rs. name x \<noteq> name r"
        by (metis imageI)
      then have "filter (\<lambda>x. name x = name r) rs = []"
        by (simp add: filter_empty_conv)
      with False \<open>k = name r\<close> snoc show ?thesis
        by (simp add: group_runs_snoc group_append_map_of)
    qed
  next
    case False
    with snoc show ?thesis
      by (simp add: group_runs_snoc group_append_map_of)
  qed
qed

lemma group_runs_member:
  assumes "(k, v) \<in> set (group_runs rs)"
  shows "v = filter (\<lambda>r. name r = k) rs" and "k \<in> name ` set rs" and "v \<noteq> []"
proof -
  have "map_of (group_runs rs) k = Some v"
    using assms group_runs_keys by (simp add: map_of_eq_Some_iff)
  then show v: "v = filter (\<lambda>r. name r = k) rs" and k: "k \<in> name ` set rs"
    by (simp_all add: group_runs_map_of split: if_splits)
  from k obtain r where "r \<in> set rs" and "name r = k"
    by auto
  then have "r \<in> set v"
    using v by simp
  then show "v \<noteq> []"
    by auto
qed

lemma latest_of_groups_total:
  "\<forall>(k, v) \<in> set gs. v \<noteq> [] \<Longrightarrow>
   latest_of_groups gs = Inr (map (\<lambda>(k, v). hd (sort_key (\<lambda>vs. - id' vs) v)) gs)"
proof (induction gs)
  case Nil
  show ?case by simp
next
  case (Cons g gs)
  obtain k v where g: "g = (k, v)" by (cases g)
  have "v \<noteq> []"
    using Cons.prems g by simp
  then have "sort_key (\<lambda>vs. - id' vs) v \<noteq> []"
    by (metis set_sort set_empty)
  then obtain x xs where "sort_key (\<lambda>vs. - id' vs) v = x # xs"
    by (cases "sort_key (\<lambda>vs. - id' vs) v") auto
  then show ?case using Cons g by simp
qed

lemma hd_sort_key:
  assumes "v \<noteq> []"
  shows "hd (sort_key f v) \<in> set v \<and> (\<forall>x \<in> set v. f (hd (sort_key f v)) \<le> f x)"
proof -
  obtain y ys where s: "sort_key f v = y # ys"
    using assms by (cases "sort_key f v") (auto dest: arg_cong [where f = length])
  have "sorted (map f (y # ys))"
    using sorted_sort_key [of f v] s by simp
  moreover have "set v = set (y # ys)"
    using set_sort [of f v] s by simp
  ultimately show ?thesis using s by auto
qed


lemma fst_reduce_to_latest_runs:
  "fst (reduce_to_latest_runs check_runs) = latest_of_groups (group_runs check_runs)"
  by (simp add: reduce_to_latest_runs_def Let_def split: sum.splits)

lemma group_runs_latest:
  assumes "(k, v) \<in> set (group_runs check_runs)"
  defines "run \<equiv> hd (sort_key (\<lambda>vs. - id' vs) v)"
  shows "run \<in> set check_runs" and "name run = k"
    and "id' run = Max (id' ` {r \<in> set check_runs. name r = k})"
proof -
  have v: "v = filter (\<lambda>r. name r = k) check_runs" and "v \<noteq> []"
    using group_runs_member [OF assms(1)] by simp_all
  then have run: "run \<in> set v" and least: "\<forall>x \<in> set v. - id' run \<le> - id' x"
    using hd_sort_key [of v "\<lambda>vs. - id' vs"] by (simp_all add: run_def)
  show "run \<in> set check_runs" and "name run = k"
    using run v by simp_all
  have "set v = {r \<in> set check_runs. name r = k}"
    using v by auto
  then show "id' run = Max (id' ` {r \<in> set check_runs. name r = k})"
    using run least by (intro Max_eqI [symmetric]) auto
qed

lemma group_runs_nonempty: "\<forall>(k, v) \<in> set (group_runs check_runs). v \<noteq> []"
  using group_runs_member(3) [of _ _ check_runs] by auto

lemma reduce_to_latest_runs_Inr:
  "fst (reduce_to_latest_runs check_runs) =
     Inr (map (\<lambda>(k, v). hd (sort_key (\<lambda>vs. - id' vs) v)) (group_runs check_runs))"
  by (simp only: fst_reduce_to_latest_runs latest_of_groups_total [OF group_runs_nonempty])

lemma reduce_to_latest_runs_total:
  "\<exists>latest_runs. fst (reduce_to_latest_runs check_runs) = Inr latest_runs"
  using reduce_to_latest_runs_Inr by blast

text \<open>
  C3: for every list of check runs, \<^verbatim>\<open>reduce_to_latest_runs\<close> raises nothing and returns a list
  with exactly one run for each name of the input (the names of the output are distinct
  and are the names of the input); each run returned is a run of the input whose id is
  the greatest id among the input runs of its name; the empty list gives the empty list.
\<close>

theorem reduce_to_latest_runs_max_id:
  "\<exists>latest_runs. fst (reduce_to_latest_runs check_runs) = Inr latest_runs
     \<and> distinct (map name latest_runs)
     \<and> set (map name latest_runs) = name ` set check_runs
     \<and> (\<forall>run \<in> set latest_runs. run \<in> set check_runs
           \<and> id' run = Max (id' ` {r \<in> set check_runs. name r = name run}))
     \<and> fst (reduce_to_latest_runs []) = Inr []"
proof -
  let ?gs = "group_runs check_runs"
  let ?latest = "map (\<lambda>(k, v). hd (sort_key (\<lambda>vs. - id' vs) v)) ?gs"
  have res: "fst (reduce_to_latest_runs check_runs) = Inr ?latest"
    by (rule reduce_to_latest_runs_Inr)
  have "\<forall>g \<in> set ?gs. name ((\<lambda>(k, v). hd (sort_key (\<lambda>vs. - id' vs) v)) g) = fst g"
    using group_runs_latest(2) [of _ _ check_runs] by auto
  then have names: "map name ?latest = map fst ?gs"
    by (simp add: map_eq_conv)
  have "distinct (map name ?latest)"
    unfolding names using group_runs_keys [of check_runs] by simp
  moreover have "set (map name ?latest) = name ` set check_runs"
    unfolding names using group_runs_keys [of check_runs] by simp
  moreover have "\<forall>run \<in> set ?latest. run \<in> set check_runs
      \<and> id' run = Max (id' ` {r \<in> set check_runs. name r = name run})"
  proof
    fix run assume "run \<in> set ?latest"
    then obtain k v where kv: "(k, v) \<in> set ?gs"
      and run: "run = hd (sort_key (\<lambda>vs. - id' vs) v)" by auto
    show "run \<in> set check_runs \<and> id' run = Max (id' ` {r \<in> set check_runs. name r = name run})"
      using group_runs_latest [OF kv] run by simp
  qed
  moreover have "fst (reduce_to_latest_runs []) = Inr []"
    by (simp add: fst_reduce_to_latest_runs group_runs_def)
  ultimately show ?thesis using res by blast
qed

text \<open>The example of the specification: A (id 1, X), B (id 5, X), C (id 3, Y) reduce to B, C.\<close>

lemma reduce_ABC: "fst (reduce_to_latest_runs [runA, runB, runC]) = Inr [runB, runC]"
  by (simp add: fst_reduce_to_latest_runs group_runs_def runA_def runB_def runC_def)

theorem reduce_to_latest_runs_max_id_witness:
  "fst (reduce_to_latest_runs [runA, runB, runC]) = Inr [runB, runC]
   \<and> distinct (map name [runB, runC])
   \<and> runB \<in> set [runA, runB, runC]
   \<and> id' runB = Max (id' ` {r \<in> set [runA, runB, runC]. name r = name runB})"
proof -
  obtain latest_runs where
    "fst (reduce_to_latest_runs [runA, runB, runC]) = Inr latest_runs" and
    "distinct (map name latest_runs)" and
    "\<forall>run \<in> set latest_runs. run \<in> set [runA, runB, runC]
         \<and> id' run = Max (id' ` {r \<in> set [runA, runB, runC]. name r = name run})"
    using reduce_to_latest_runs_max_id [of "[runA, runB, runC]"] by blast
  moreover from this(1) have "latest_runs = [runB, runC]"
    by (simp only: reduce_ABC sum.inject)
  moreover have "runB \<in> set [runB, runC]"
    by simp
  ultimately show ?thesis
    by blast
qed

section \<open>Classification\<close>

lemma classify_buckets:
  "incomplete (fst (classify runs)) = filter (\<lambda>run. status run \<in> set Status_incomplete) runs"
  "ignored (fst (classify runs)) = filter (conclusion_in Conclusion_ignored) (complete_runs runs)"
  "succeeded (fst (classify runs)) = filter (conclusion_in Conclusion_succeeded) (complete_runs runs)"
  "failed (fst (classify runs)) = filter (conclusion_in Conclusion_fail) (complete_runs runs)"
  by (simp_all add: classify_def filter_and_log_by_status_def filter_and_log_by_conclusion_def
      Let_def split: prod.splits)

lemma classify_total_logged:
  "Log INFO (TotalCompletion (length (complete_runs runs))) \<in> set (snd (classify runs))"
  by (simp add: classify_def filter_and_log_by_status_def filter_and_log_by_conclusion_def
      Let_def split: prod.splits)

lemma conclusion_in_append:
  "conclusion_in (xs @ ys) run \<longleftrightarrow> conclusion_in xs run \<or> conclusion_in ys run"
  by (auto simp: conclusion_in_def split: option.splits)

lemma conclusion_lists_disjoint:
  "\<not> (conclusion_in Conclusion_ignored run \<and> conclusion_in Conclusion_succeeded run)"
  "\<not> (conclusion_in Conclusion_ignored run \<and> conclusion_in Conclusion_fail run)"
  "\<not> (conclusion_in Conclusion_succeeded run \<and> conclusion_in Conclusion_fail run)"
  by (auto simp: conclusion_in_def Conclusion_ignored_def Conclusion_succeeded_def
      Conclusion_fail_def split: option.splits)

text \<open>
  C4: a run whose name is in the ignore list is in none of the four lists that a poll
  computes from the runs left by the filter of line 214, whatever its status and
  conclusion. The ignore list that \<^verbatim>\<open>hello\<close> builds holds the value of \<^verbatim>\<open>--name\<close> and each
  comma-separated piece of \<^verbatim>\<open>--ignore\<close>, stripped of surrounding white space.
\<close>

theorem ignored_name_in_no_bucket:
  assumes "Some (name run) \<in> set ignore_list"
      and "batch = fst (classify (not_ignored ignore_list latest_runs))"
  shows "run \<notin> set (incomplete batch) \<and> run \<notin> set (ignored batch)
       \<and> run \<notin> set (succeeded batch) \<and> run \<notin> set (failed batch)
       \<and> set (build_user_ignore ignore_arg name_arg) =
           insert name_arg ((\<lambda>w. Some (strip w)) ` set (split_comma ignore_arg))"
  using assms
  by (auto simp: classify_buckets not_ignored_def complete_runs_def build_user_ignore_def)

lemma build_user_ignore_example:
  "build_user_ignore '' label , CodeQL'' (Some ''enforce-all-checks'') =
     [Some ''label'', Some ''CodeQL'', Some ''enforce-all-checks'']"
  by (simp add: build_user_ignore_def split_comma_def strip_def isspace_def)

theorem ignored_name_in_no_bucket_witness:
  "Some (name runL) \<in> set (build_user_ignore '' label , CodeQL'' (Some ''enforce-all-checks''))
   \<and> runL \<notin> set (incomplete (fst (classify (not_ignored
         (build_user_ignore '' label , CodeQL'' (Some ''enforce-all-checks'')) [runL, runA]))))
   \<and> runL \<notin> set (failed (fst (classify (not_ignored
         (build_user_ignore '' label , CodeQL'' (Some ''enforce-all-checks'')) [runL, runA]))))"
  using ignored_name_in_no_bucket [of runL
      "build_user_ignore '' label , CodeQL'' (Some ''enforce-all-checks'')"
      "fst (classify (not_ignored
         (build_user_ignore '' label , CodeQL'' (Some ''enforce-all-checks'')) [runL, runA]))"
      "[runL, runA]"]
  by (simp add: build_user_ignore_example runL_def)

lemma visible_False_run_names:
  "visible False (map (\<lambda>run. Log DEBUG (RunName (name run))) rs) = []"
  by (induction rs) (simp_all add: visible_def)

lemma visible_append: "visible debug (xs @ ys) = visible debug xs @ visible debug ys"
  by (simp add: visible_def)

lemma visible_False_INFO: "visible False (Log INFO m # evs) = Log INFO m # visible False evs"
  by (simp add: visible_def)

text \<open>Without \<^verbatim>\<open>--debug\<close> the classification shows five lines: four bucket counts and the total.\<close>

lemma visible_classify:
  "visible False (snd (classify runs)) =
     [Log INFO (Count ''Waiting on completion'' (length (incomplete (fst (classify runs))))),
      Log INFO (TotalCompletion (length (complete_runs runs))),
      Log INFO (Count ''Ignored completion'' (length (ignored (fst (classify runs))))),
      Log INFO (Count ''Celebrated completion'' (length (succeeded (fst (classify runs))))),
      Log INFO (Count ''Mourned failure'' (length (failed (fst (classify runs)))))]"
  by (simp add: classify_def filter_and_log_by_status_def filter_and_log_by_conclusion_def
      Let_def visible_append visible_False_INFO visible_False_run_names split: prod.splits)

text \<open>Every run has its conclusion in exactly one of the three lists or in none.\<close>

lemma length_four_way:
  "length xs =
     length (filter (conclusion_in Conclusion_ignored) xs)
     + length (filter (conclusion_in Conclusion_succeeded) xs)
     + length (filter (conclusion_in Conclusion_fail) xs)
     + length (filter (\<lambda>r. \<not> conclusion_in
         (Conclusion_ignored @ Conclusion_succeeded @ Conclusion_fail) r) xs)"
proof (induction xs)
  case Nil
  show ?case by simp
next
  case (Cons x xs)
  show ?case
    using Cons conclusion_lists_disjoint [of x]
    by (auto simp: conclusion_in_append)
qed

text \<open>
  C5: among the runs that a poll classifies, a run with status \<^verbatim>\<open>completed\<close> whose conclusion
  is in one of the three lists of class \<^verbatim>\<open>Conclusion\<close> is in exactly one of the lists
  ignored, succeeded, failed; one whose conclusion is in none of them is in none of the
  three. In both cases the run is not in the incomplete list, and it is one of the
  complete runs whose number the poll logs at level INFO ("Total completion of n
  workflows"). The poll has no line of its own for the runs of unrecognised conclusion,
  but it counts them: the lines it shows without \<^verbatim>\<open>--debug\<close> are exactly the number of
  incomplete runs, the total of complete runs and the sizes of the three lists, and the
  total is the sum of the three sizes and the number of complete runs of unrecognised
  conclusion; so such a run makes the total shown greater than the three sizes shown
  together.
\<close>

theorem completed_run_in_one_bucket:
  assumes "batch = fst (classify runs)" and "run \<in> set runs" and "status run = Status_completed"
  shows "(conclusion_in (Conclusion_ignored @ Conclusion_succeeded @ Conclusion_fail) run \<longrightarrow>
            length (filter (\<lambda>bucket. run \<in> set bucket)
                      [ignored batch, succeeded batch, failed batch]) = 1)
       \<and> (\<not> conclusion_in (Conclusion_ignored @ Conclusion_succeeded @ Conclusion_fail) run \<longrightarrow>
            run \<notin> set (ignored batch) \<and> run \<notin> set (succeeded batch) \<and> run \<notin> set (failed batch))
       \<and> run \<notin> set (incomplete batch)
       \<and> run \<in> set (complete_runs runs)
       \<and> Log INFO (TotalCompletion (length (complete_runs runs))) \<in> set (snd (classify runs))
       \<and> visible False (snd (classify runs)) =
            [Log INFO (Count ''Waiting on completion'' (length (incomplete batch))),
             Log INFO (TotalCompletion (length (complete_runs runs))),
             Log INFO (Count ''Ignored completion'' (length (ignored batch))),
             Log INFO (Count ''Celebrated completion'' (length (succeeded batch))),
             Log INFO (Count ''Mourned failure'' (length (failed batch)))]
       \<and> length (complete_runs runs) =
            length (ignored batch) + length (succeeded batch) + length (failed batch)
            + length (filter (\<lambda>r. \<not> conclusion_in
                (Conclusion_ignored @ Conclusion_succeeded @ Conclusion_fail) r) (complete_runs runs))
       \<and> (\<not> conclusion_in (Conclusion_ignored @ Conclusion_succeeded @ Conclusion_fail) run \<longrightarrow>
            length (ignored batch) + length (succeeded batch) + length (failed batch)
            < length (complete_runs runs))"
proof -
  let ?U = "\<lambda>r. \<not> conclusion_in (Conclusion_ignored @ Conclusion_succeeded @ Conclusion_fail) r"
  have c: "run \<in> set (complete_runs runs)"
    using assms by (simp add: complete_runs_def Status_complete_def)
  have i: "run \<notin> set (incomplete batch)"
    using assms by (simp add: classify_buckets Status_incomplete_def)
  have v: "visible False (snd (classify runs)) =
            [Log INFO (Count ''Waiting on completion'' (length (incomplete batch))),
             Log INFO (TotalCompletion (length (complete_runs runs))),
             Log INFO (Count ''Ignored completion'' (length (ignored batch))),
             Log INFO (Count ''Celebrated completion'' (length (succeeded batch))),
             Log INFO (Count ''Mourned failure'' (length (failed batch)))]"
    unfolding assms(1) by (rule visible_classify)
  have n: "length (complete_runs runs) =
            length (ignored batch) + length (succeeded batch) + length (failed batch)
            + length (filter ?U (complete_runs runs))"
    unfolding assms(1) classify_buckets by (rule length_four_way)
  have u: "length (ignored batch) + length (succeeded batch) + length (failed batch)
            < length (complete_runs runs)" if "?U run"
  proof -
    have "run \<in> set (filter ?U (complete_runs runs))"
      using c that by simp
    then have "filter ?U (complete_runs runs) \<noteq> []"
      by (metis empty_iff empty_set)
    then have "0 < length (filter ?U (complete_runs runs))"
      by (rule iffD2 [OF length_greater_0_conv])
    with n show ?thesis
      by linarith
  qed
  have b: "(conclusion_in (Conclusion_ignored @ Conclusion_succeeded @ Conclusion_fail) run \<longrightarrow>
            length (filter (\<lambda>bucket. run \<in> set bucket)
                      [ignored batch, succeeded batch, failed batch]) = 1)
       \<and> (?U run \<longrightarrow>
            run \<notin> set (ignored batch) \<and> run \<notin> set (succeeded batch) \<and> run \<notin> set (failed batch))"
    using c conclusion_lists_disjoint [of run]
    by (auto simp: assms(1) classify_buckets conclusion_in_append)
  from b i c classify_total_logged [of runs] v n u show ?thesis
    by blast
qed

theorem completed_run_in_one_bucket_witness:
  "length (filter (\<lambda>bucket. runA \<in> set bucket)
       [ignored (fst (classify [runA, runU])), succeeded (fst (classify [runA, runU])),
        failed (fst (classify [runA, runU]))]) = 1
   \<and> runU \<notin> set (ignored (fst (classify [runA, runU])))
   \<and> runU \<notin> set (succeeded (fst (classify [runA, runU])))
   \<and> runU \<notin> set (failed (fst (classify [runA, runU])))
   \<and> runU \<notin> set (incomplete (fst (classify [runA, runU])))
   \<and> complete_runs [runA, runU] = [runA, runU]
   \<and> Log INFO (TotalCompletion (length (complete_runs [runA, runU])))
       \<in> set (snd (classify [runA, runU]))
   \<and> visible False (snd (classify [runA, runU])) =
        [Log INFO (Count ''Waiting on completion'' 0), Log INFO (TotalCompletion 2),
         Log INFO (Count ''Ignored completion'' 0), Log INFO (Count ''Celebrated completion'' 1),
         Log INFO (Count ''Mourned failure'' 0)]
   \<and> length (ignored (fst (classify [runA, runU]))) + length (succeeded (fst (classify [runA, runU])))
       + length (failed (fst (classify [runA, runU]))) < length (complete_runs [runA, runU])"
proof -
  have a: "status runA = Status_completed"
    and a': "conclusion_in (Conclusion_ignored @ Conclusion_succeeded @ Conclusion_fail) runA"
    by (simp_all add: runA_def conclusion_in_def Conclusion_succeeded_def)
  have u: "status runU = Status_completed"
    and u': "\<not> conclusion_in (Conclusion_ignored @ Conclusion_succeeded @ Conclusion_fail) runU"
    by (simp_all add: runU_def conclusion_in_def Conclusion_ignored_def
        Conclusion_succeeded_def Conclusion_fail_def)
  have c: "complete_runs [runA, runU] = [runA, runU]"
    by (simp add: complete_runs_def Status_complete_def a u)
  have l: "length (incomplete (fst (classify [runA, runU]))) = 0"
    "length (ignored (fst (classify [runA, runU]))) = 0"
    "length (succeeded (fst (classify [runA, runU]))) = 1"
    "length (failed (fst (classify [runA, runU]))) = 0"
    by (simp_all add: classify_buckets c Status_incomplete_def a u)
       (simp_all add: runA_def runU_def conclusion_in_def Conclusion_ignored_def
        Conclusion_succeeded_def Conclusion_fail_def)
  show ?thesis
    using completed_run_in_one_bucket [OF refl _ a, of "[runA, runU]"]
      completed_run_in_one_bucket [OF refl _ u, of "[runA, runU]"] a' u' c l
    by simp
qed

section \<open>The decision of one poll\<close>

lemma log_summary_cases:
  "log_summary env runs =
     (if summary_unwritable env then Inl OSError
      else Inr [if GITHUB_STEP_SUMMARY env = None \<or> GITHUB_STEP_SUMMARY env = Some []
                then Log DEBUG (Table (map (\<lambda>run. (name run, status run, conclusion run)) runs))
                else Append (the (GITHUB_STEP_SUMMARY env))
                       (Table (map (\<lambda>run. (name run, status run, conclusion run)) runs))])"
  by (simp add: log_summary_def summary_unwritable_def Let_def split: option.splits)

lemma fst_summary_then_raise:
  "fst (summary_then_raise c latest_runs log1) =
     (if summary_unwritable (environ c) then Raise OSError else Failed_Executions_Detected)"
  by (simp add: summary_then_raise_def log_summary_cases)

text \<open>
  C1: when the failed list is not empty and \<^verbatim>\<open>exhaustive\<close> is off, the poll ends at once
  with an exception that is not \<^verbatim>\<open>Enforcer\<close>, also when the incomplete list is not empty:
  the plain exception "Failed Executions Detected", or the \<^verbatim>\<open>OSError\<close> of \<^verbatim>\<open>log_summary\<close>
  when the step summary file cannot be opened. With \<^verbatim>\<open>exhaustive\<close> on and a non-empty
  incomplete list, the same lists make it raise \<^verbatim>\<open>Enforcer\<close>, the request for another
  poll.
\<close>

theorem decide_fail_fast_precedence:
  "failed batch \<noteq> [] \<Longrightarrow>
   fst (decide (c\<lparr>exhaustive := False\<rparr>) latest_runs runs batch) =
     (if summary_unwritable (environ c) then Raise OSError else Failed_Executions_Detected)
   \<and> fst (decide (c\<lparr>exhaustive := False\<rparr>) latest_runs runs batch) \<noteq> Raise Enforcer
   \<and> (incomplete batch \<noteq> [] \<longrightarrow>
        fst (decide (c\<lparr>exhaustive := True\<rparr>) latest_runs runs batch) = Raise Enforcer)"
  by (simp add: decide_def Let_def fst_summary_then_raise)

lemma example_environs:
  "summary_unwritable (environ closure0) = False"
  "summary_unwritable (environ closure_nodir) = True"
  by (simp_all add: closure0_def closure_nodir_def summary_unwritable_def)

theorem decide_fail_fast_precedence_witness:
  "failed batchFI \<noteq> [] \<and> incomplete batchFI \<noteq> []
   \<and> fst (decide (closure0\<lparr>exhaustive := False\<rparr>) [runB, runC] [runB, runC] batchFI)
       = Failed_Executions_Detected
   \<and> fst (decide (closure_nodir\<lparr>exhaustive := False\<rparr>) [runB, runC] [runB, runC] batchFI)
       = Raise OSError
   \<and> fst (decide (closure0\<lparr>exhaustive := True\<rparr>) [runB, runC] [runB, runC] batchFI)
       = Raise Enforcer"
  using decide_fail_fast_precedence [of batchFI closure0 "[runB, runC]" "[runB, runC]"]
    decide_fail_fast_precedence [of batchFI closure_nodir "[runB, runC]" "[runB, runC]"]
  by (simp add: batchFI_def example_environs)

text \<open>
  C2: when the incomplete list is empty, the poll fails if the failed list is not empty
  (it raises "Failed Executions Detected", or the \<^verbatim>\<open>OSError\<close> of \<^verbatim>\<open>log_summary\<close> when the
  step summary file cannot be opened) and returns otherwise, whatever \<^verbatim>\<open>exhaustive\<close> is
  and whatever the ignored and succeeded lists hold.
\<close>

theorem decide_incomplete_empty:
  "incomplete batch = [] \<Longrightarrow>
   fst (decide c latest_runs runs batch) =
     (if failed batch \<noteq> []
      then (if summary_unwritable (environ c) then Raise OSError else Failed_Executions_Detected)
      else Return runs)"
  by (simp add: decide_def Let_def fst_summary_then_raise)

theorem decide_incomplete_empty_witness:
  "incomplete batchF = [] \<and> incomplete batchS = []
   \<and> fst (decide (closure0\<lparr>exhaustive := True\<rparr>) [runA, runC] [runA, runC] batchF)
       = Failed_Executions_Detected
   \<and> fst (decide closure_nodir [runA, runC] [runA, runC] batchF) = Raise OSError
   \<and> fst (decide closure0 [runA] [runA] batchS) = Return [runA]"
  using decide_incomplete_empty [of batchF "closure0\<lparr>exhaustive := True\<rparr>" "[runA, runC]" "[runA, runC]"]
    decide_incomplete_empty [of batchF closure_nodir "[runA, runC]" "[runA, runC]"]
    decide_incomplete_empty [of batchS closure0 "[runA]" "[runA]"]
  by (simp add: batchF_def batchS_def example_environs)

text \<open>
  The outcome of \<^verbatim>\<open>poll_vault\<close> on fetched runs is the decision on the lists classified
  from the latest runs that pass the name filter.
\<close>

lemma poll_vault_outcome:
  assumes "fst (reduce_to_latest_runs check_runs) = Inr latest_runs"
  shows "fst (poll_vault c n (Inr check_runs)) =
           fst (decide c latest_runs (not_ignored (user_ignore c) latest_runs)
                  (fst (classify (not_ignored (user_ignore c) latest_runs))))"
proof (cases "reduce_to_latest_runs check_runs")
  case (Pair reduced log2)
  with assms have "reduced = Inr latest_runs"
    by simp
  with Pair show ?thesis
    by (simp add: poll_vault_def Let_def split: prod.splits)
qed

text \<open>
  C10: when every latest run that passes the name filter is completed with a conclusion
  outside the three lists of class \<^verbatim>\<open>Conclusion\<close>, the incomplete and the failed list are
  empty and \<^verbatim>\<open>poll_vault\<close> returns: the poll succeeds.
\<close>

theorem unrecognized_conclusions_succeed:
  "\<exists>latest_runs. fst (reduce_to_latest_runs check_runs) = Inr latest_runs
     \<and> ((\<forall>run \<in> set (not_ignored (user_ignore c) latest_runs).
            status run = Status_completed
            \<and> \<not> conclusion_in (Conclusion_ignored @ Conclusion_succeeded @ Conclusion_fail) run)
          \<longrightarrow> incomplete (fst (classify (not_ignored (user_ignore c) latest_runs))) = []
            \<and> failed (fst (classify (not_ignored (user_ignore c) latest_runs))) = []
            \<and> fst (poll_vault c n (Inr check_runs)) = Return (not_ignored (user_ignore c) latest_runs))"
proof -
  obtain latest_runs where l: "fst (reduce_to_latest_runs check_runs) = Inr latest_runs"
    using reduce_to_latest_runs_total by blast
  let ?runs = "not_ignored (user_ignore c) latest_runs"
  {
    assume a: "\<forall>run \<in> set ?runs. status run = Status_completed
            \<and> \<not> conclusion_in (Conclusion_ignored @ Conclusion_succeeded @ Conclusion_fail) run"
    have i: "incomplete (fst (classify ?runs)) = []"
      using a by (simp add: classify_buckets filter_empty_conv Status_incomplete_def)
    have f: "failed (fst (classify ?runs)) = []"
      using a by (simp add: classify_buckets filter_empty_conv complete_runs_def conclusion_in_append)
    have "fst (poll_vault c n (Inr check_runs)) = Return ?runs"
      by (simp add: poll_vault_outcome [OF l] decide_def i f)
    note i f this
  }
  with l show ?thesis by blast
qed

lemma reduce_U: "fst (reduce_to_latest_runs [runU]) = Inr [runU]"
  by (simp add: fst_reduce_to_latest_runs group_runs_def)

theorem unrecognized_conclusions_succeed_witness:
  "fst (reduce_to_latest_runs [runU]) = Inr [runU]
   \<and> not_ignored (user_ignore closure0) [runU] = [runU]
   \<and> status runU = Status_completed
   \<and> \<not> conclusion_in (Conclusion_ignored @ Conclusion_succeeded @ Conclusion_fail) runU
   \<and> fst (poll_vault closure0 1 (Inr [runU])) = Return [runU]"
proof -
  have n: "not_ignored (user_ignore closure0) [runU] = [runU]"
    by (simp add: not_ignored_def closure0_def runU_def)
  have s: "status runU = Status_completed"
    by (simp add: runU_def)
  have u: "\<not> conclusion_in (Conclusion_ignored @ Conclusion_succeeded @ Conclusion_fail) runU"
    by (simp add: runU_def conclusion_in_def Conclusion_ignored_def
      Conclusion_succeeded_def Conclusion_fail_def)
  show ?thesis
    using unrecognized_conclusions_succeed [of "[runU]" closure0 1] n s u
    by (simp add: reduce_U)
qed

section \<open>The retry loop\<close>

lemma decide_Enforcer:
  "fst (decide c latest_runs runs batch) = Raise Enforcer \<Longrightarrow> incomplete batch \<noteq> []"
  by (simp add: decide_def Let_def fst_summary_then_raise split: if_splits)

lemma poll_vault_Enforcer:
  assumes "fst (poll_vault c n fetched) = Raise Enforcer"
  shows "\<exists>check_runs latest_runs. fetched = Inr check_runs
           \<and> fst (reduce_to_latest_runs check_runs) = Inr latest_runs
           \<and> incomplete (fst (classify (not_ignored (user_ignore c) latest_runs))) \<noteq> []"
proof (cases fetched)
  case (Inl e)
  with assms show ?thesis
    by (simp add: poll_vault_def)
next
  case (Inr check_runs)
  obtain latest_runs where l: "fst (reduce_to_latest_runs check_runs) = Inr latest_runs"
    using reduce_to_latest_runs_total by blast
  with assms Inr show ?thesis
    by (auto simp: poll_vault_outcome [OF l] dest: decide_Enforcer)
qed

lemma attempt_unfold:
  "attempt c src s =
     (let n = attempt_number s; d = fst (src n); p = poll_vault c n (snd (src n));
          s' = s\<lparr>started := now s, now := now s + d, logged := logged s @ snd p\<rparr>
      in if fst p \<noteq> Raise Enforcer then Done (fst p) s'
         else if real_of_int (timeout c) \<le> now s' then Done (Raise RetryError) s'
         else if interval c < 0 then Done (Raise ValueError) s'
         else Sleep (s'\<lparr>attempt_number := n + 1, now := now s' + real_of_int (interval c)\<rparr>))"
  by (simp add: attempt_def Let_def split: prod.splits)

lemma attempt_source_error:
  "src (attempt_number s) = (d, Inl e) \<Longrightarrow>
   attempt c src s =
     Done (Raise (SourceError e))
       (s\<lparr>started := now s, now := now s + d,
          logged := logged s @ snd (poll_vault c (attempt_number s) (Inl e))\<rparr>)"
  by (simp add: attempt_unfold Let_def poll_vault_def)

lemma attempt_Sleep:
  assumes "attempt c src s = Sleep s'"
  shows "attempt_number s' = Suc (attempt_number s)"
    and "fst (poll_vault c (attempt_number s) (snd (src (attempt_number s)))) = Raise Enforcer"
  using assms by (auto simp: attempt_unfold Let_def split: if_splits)

text \<open>
  C6: an error of the check-run source ends the loop at once with that error, on the
  attempt where it occurs; the loop sleeps and polls again only after an attempt whose
  fetch succeeded and whose incomplete list is not empty; and \<^verbatim>\<open>hello\<close>, given a source
  that fails on the first fetch, exits with status 1 after that single poll.
\<close>

theorem source_error_not_retried:
  "(src (attempt_number s) = (d, Inl e) \<longrightarrow>
      retry_loop (Suc fuel) c src s =
        Some (Raise (SourceError e),
              s\<lparr>started := now s, now := now s + d,
                 logged := logged s @ snd (poll_vault c (attempt_number s) (Inl e))\<rparr>))
   \<and> (attempt c src s = Sleep s' \<longrightarrow>
        attempt_number s' = Suc (attempt_number s)
        \<and> (\<exists>d' check_runs latest_runs. src (attempt_number s) = (d', Inr check_runs)
              \<and> fst (reduce_to_latest_runs check_runs) = Inr latest_runs
              \<and> incomplete (fst (classify (not_ignored (user_ignore c) latest_runs))) \<noteq> []))
   \<and> (connect_error gh = None \<and> get_check_runs gh 1 = (d, Inl e) \<longrightarrow>
        (\<exists>r. hello (Suc fuel) gh env repository branch interval_arg timeout_arg name_arg
                (Some ignore_str) exhaustive_arg debug = Some r
              \<and> result r = SystemExit 1 \<and> polls r = 1))"
proof (intro conjI impI)
  assume "src (attempt_number s) = (d, Inl e)"
  then show "retry_loop (Suc fuel) c src s =
        Some (Raise (SourceError e),
              s\<lparr>started := now s, now := now s + d,
                 logged := logged s @ snd (poll_vault c (attempt_number s) (Inl e))\<rparr>)"
    by (simp add: attempt_source_error)
next
  assume a: "attempt c src s = Sleep s'"
  then show "attempt_number s' = Suc (attempt_number s)"
    by (rule attempt_Sleep)
  obtain d' fetched where f: "src (attempt_number s) = (d', fetched)"
    by (cases "src (attempt_number s)")
  with attempt_Sleep(2) [OF a] poll_vault_Enforcer [of c "attempt_number s" fetched]
  show "\<exists>d' check_runs latest_runs. src (attempt_number s) = (d', Inr check_runs)
              \<and> fst (reduce_to_latest_runs check_runs) = Inr latest_runs
              \<and> incomplete (fst (classify (not_ignored (user_ignore c) latest_runs))) \<noteq> []"
    by auto
next
  assume "connect_error gh = None \<and> get_check_runs gh 1 = (d, Inl e)"
  then show "\<exists>r. hello (Suc fuel) gh env repository branch interval_arg timeout_arg name_arg
                (Some ignore_str) exhaustive_arg debug = Some r
              \<and> result r = SystemExit 1 \<and> polls r = 1"
    by (simp add: hello_def Let_def begin_state_def attempt_source_error)
qed

text \<open>
  Examples: a poll of one run in progress asks for a retry, a poll of one succeeded run
  returns, a poll of one failed run bails out.
\<close>

lemma closure0_fields:
  "interval closure0 = 10" "timeout closure0 = 25" "exhaustive closure0 = False"
  "environ closure0 = \<lparr>GITHUB_STEP_SUMMARY = None, open_fails = False\<rparr>"
  by (simp_all add: closure0_def)


lemma reduce_B: "fst (reduce_to_latest_runs [runB]) = Inr [runB]"
  by (simp add: fst_reduce_to_latest_runs group_runs_def)


lemma poll_incomplete: "fst (poll_vault closure0 n (Inr [runB])) = Raise Enforcer"
  using reduce_B
  by (simp add: poll_vault_outcome decide_def classify_buckets not_ignored_def closure0_def
      runB_def Status_incomplete_def complete_runs_def Status_complete_def)




theorem source_error_not_retried_witness:
  "(\<exists>s. retry_loop (Suc 4) closure0 bad_gateway (begin_state []) =
          Some (Raise (SourceError ''502 Bad Gateway''), s) \<and> attempt_number s = 1)
   \<and> (\<exists>s'. attempt closure0 always_incomplete (begin_state []) = Sleep s'
          \<and> attempt_number s' = 2)
   \<and> (\<exists>r. hello (Suc 4) \<lparr>connect_error = None, get_check_runs = bad_gateway\<rparr>
              \<lparr>GITHUB_STEP_SUMMARY = None, open_fails = False\<rparr>
              ''clowtown/pr-enforcer'' ''test'' 10 25 (Some ''enforce-all-checks'')
              (Some ''label'') False False = Some r
          \<and> result r = SystemExit 1 \<and> polls r = 1)"
proof -
  have 1: "bad_gateway (attempt_number (begin_state [])) = (1 / 5, Inl ''502 Bad Gateway'')"
    by (simp add: bad_gateway_def)
  have 2: "attempt closure0 always_incomplete (begin_state []) =
      Sleep ((begin_state [])\<lparr>started := 0, now := 1 / 5,
        logged := snd (poll_vault closure0 1 (Inr [runB])),
        attempt_number := 2, now := 1 / 5 + 10\<rparr>)"
    by (simp add: attempt_unfold Let_def always_incomplete_def poll_incomplete begin_state_def
        closure0_fields)
  have 3: "connect_error \<lparr>connect_error = None, get_check_runs = bad_gateway\<rparr> = None
      \<and> get_check_runs \<lparr>connect_error = None, get_check_runs = bad_gateway\<rparr> 1
          = (1 / 5, Inl ''502 Bad Gateway'')"
    by (simp add: bad_gateway_def)
  show ?thesis
    using source_error_not_retried [of bad_gateway "begin_state []" "1 / 5" "''502 Bad Gateway''"
        4 closure0 _ "\<lparr>connect_error = None, get_check_runs = bad_gateway\<rparr>"] 1 3
      source_error_not_retried [of always_incomplete "begin_state []" _ _ _ closure0, OF ] 2
    by (simp add: begin_state_def)
qed

subsection \<open>Summaries\<close>




























lemma attempt_Enforcer:
  assumes "fst (poll_vault c (attempt_number s) (snd (src (attempt_number s)))) = Raise Enforcer"
    and "0 \<le> interval c"
  shows "attempt c src s =
     (let n = attempt_number s; d = fst (src n);
          s' = s\<lparr>started := now s, now := now s + d,
                  logged := logged s @ snd (poll_vault c n (snd (src n)))\<rparr>
      in if real_of_int (timeout c) \<le> now s + d then Done (Raise RetryError) s'
         else Sleep (s'\<lparr>attempt_number := n + 1, now := now s + d + real_of_int (interval c)\<rparr>))"
  using assms by (simp add: attempt_unfold Let_def)

lemma always_incomplete_Enforcer:
  "fst (poll_vault closure0 n (snd (always_incomplete n'))) = Raise Enforcer"
  by (simp add: always_incomplete_def poll_incomplete)

lemma loop_always_incomplete:
  "\<exists>s. retry_loop 4 closure0 always_incomplete (begin_state []) = Some (Raise RetryError, s)
      \<and> attempt_number s = 4 \<and> started s = 153 / 5 \<and> now s = 154 / 5"
  by (simp add: numeral_nat attempt_Enforcer always_incomplete_Enforcer closure0_fields Let_def
      begin_state_def) (simp add: always_incomplete_def)




subsection \<open>The time budget\<close>

lemma attempt_10_25:
  assumes "interval c = 10" and "timeout c = 25"
    and "fst (poll_vault c (attempt_number s) (snd (src (attempt_number s)))) = Raise Enforcer"
  shows "attempt c src s =
     (if 25 \<le> now s + fst (src (attempt_number s))
      then Done (Raise RetryError)
             (s\<lparr>started := now s, now := now s + fst (src (attempt_number s)),
                logged := logged s @ snd (poll_vault c (attempt_number s) (snd (src (attempt_number s))))\<rparr>)
      else Sleep (s\<lparr>started := now s,
                logged := logged s @ snd (poll_vault c (attempt_number s) (snd (src (attempt_number s)))),
                attempt_number := Suc (attempt_number s),
                now := now s + fst (src (attempt_number s)) + 10\<rparr>))"
  using assms by (simp add: attempt_unfold Let_def)

text \<open>
  C8, as the code has it: with an interval of 10 seconds and a timeout of 25 seconds, if
  every poll asks for a retry and no attempt takes negative time, then four attempts of
  fuel suffice: the loop ends with \<^verbatim>\<open>RetryError\<close> after at least one and at most four
  polls, the last poll begins less than 35 seconds after the first, and it ends at 25
  seconds or later. When each of the first three polls takes less than 5/3 seconds, there
  are exactly four polls.
\<close>

theorem timeout_within_four_cycles:
  assumes "interval c = 10" and "timeout c = 25"
    and "\<forall>n. 0 \<le> fst (src n)"
    and "\<forall>n. fst (poll_vault c n (snd (src n))) = Raise Enforcer"
  shows "\<exists>s. retry_loop (4 + k) c src (begin_state evs) = Some (Raise RetryError, s)
           \<and> 1 \<le> attempt_number s \<and> attempt_number s \<le> 4 \<and> started s < 35 \<and> 25 \<le> now s
           \<and> (fst (src 1) < 5 / 3 \<and> fst (src 2) < 5 / 3 \<and> fst (src 3) < 5 / 3
                \<longrightarrow> attempt_number s = 4)"
proof -
  have a: "attempt c src s =
     (if 25 \<le> now s + fst (src (attempt_number s))
      then Done (Raise RetryError)
             (s\<lparr>started := now s, now := now s + fst (src (attempt_number s)),
                logged := logged s @ snd (poll_vault c (attempt_number s) (snd (src (attempt_number s))))\<rparr>)
      else Sleep (s\<lparr>started := now s,
                logged := logged s @ snd (poll_vault c (attempt_number s) (snd (src (attempt_number s)))),
                attempt_number := Suc (attempt_number s),
                now := now s + fst (src (attempt_number s)) + 10\<rparr>))" for s
    by (rule attempt_10_25 [OF assms(1,2)]) (simp add: assms(4))
  have d: "0 \<le> fst (src (Suc 0))" "0 \<le> fst (src (Suc (Suc 0)))"
    "0 \<le> fst (src (Suc (Suc (Suc 0))))" "0 \<le> fst (src (Suc (Suc (Suc (Suc 0)))))"
    using assms(3) by simp_all
  have n4: "4 + k = Suc (Suc (Suc (Suc k)))"
    by simp
  show ?thesis
    unfolding n4 using d
    by (auto simp: a begin_state_def numeral_2_eq_2 numeral_3_eq_3)
qed

theorem timeout_within_four_cycles_witness:
  "interval closure0 = 10 \<and> timeout closure0 = 25
   \<and> 0 \<le> fst (always_incomplete 1)
   \<and> fst (poll_vault closure0 1 (snd (always_incomplete 1))) = Raise Enforcer
   \<and> (\<exists>s. retry_loop (4 + 0) closure0 always_incomplete (begin_state []) = Some (Raise RetryError, s)
          \<and> attempt_number s = 4 \<and> started s < 35 \<and> 25 \<le> now s)"
proof -
  have 1: "\<forall>n. 0 \<le> fst (always_incomplete n)"
    by (simp add: always_incomplete_def)
  have 2: "\<forall>n. fst (poll_vault closure0 n (snd (always_incomplete n))) = Raise Enforcer"
    by (simp add: always_incomplete_Enforcer)
  have 3: "fst (always_incomplete 1) < 5 / 3 \<and> fst (always_incomplete 2) < 5 / 3
      \<and> fst (always_incomplete 3) < 5 / 3"
    by (simp add: always_incomplete_def)
  from timeout_within_four_cycles [OF closure0_fields(1,2) 1 2, of 0 "[]"] 3
  have "\<exists>s. retry_loop (4 + 0) closure0 always_incomplete (begin_state []) = Some (Raise RetryError, s)
          \<and> attempt_number s = 4 \<and> started s < 35 \<and> 25 \<le> now s"
    by blast
  with 1 2 closure0_fields(1,2) show ?thesis
    by blast
qed

text \<open>
  C8 as stated fails: with polls of a fifth of a second the loop makes four polls, not
  two or three.
\<close>

theorem two_or_three_cycles_counterexample:
  "map_option fst (retry_loop 4 closure0 always_incomplete (begin_state []))
     = Some (Raise RetryError)
   \<and> map_option (attempt_number \<circ> snd) (retry_loop 4 closure0 always_incomplete (begin_state []))
       = Some 4"
proof -
  obtain s where r: "retry_loop 4 closure0 always_incomplete (begin_state []) = Some (Raise RetryError, s)"
    and n: "attempt_number s = 4"
    using loop_always_incomplete by blast
  show ?thesis
    unfolding r by (simp add: n)
qed

section \<open>The command without \<^verbatim>\<open>--ignore\<close>\<close>

text \<open>
  C9: when \<^verbatim>\<open>--ignore\<close> is omitted, \<^verbatim>\<open>hello\<close> ends with an uncaught \<^verbatim>\<open>AttributeError\<close>
  (line 179 calls \<^verbatim>\<open>split\<close> on \<^verbatim>\<open>None\<close>) whatever the other arguments and the GitHub side
  are, before it connects to GitHub and with no poll made.
\<close>

theorem hello_without_ignore:
  "\<exists>r. hello fuel gh env repository branch interval_arg timeout_arg name_arg None
          exhaustive_arg debug = Some r
      \<and> result r = Uncaught AttributeError \<and> polls r = 0
      \<and> set (written r) \<inter> set connect_log = {}
      \<and> (\<forall>m. Log INFO (Attempt m) \<notin> set (written r))"
  by (auto simp: hello_def Let_def visible_def config_log_def connect_log_def)

theorem hello_without_ignore_witness:
  "\<exists>r. hello 5 \<lparr>connect_error = None, get_check_runs = all_green\<rparr>
          \<lparr>GITHUB_STEP_SUMMARY = None, open_fails = False\<rparr>
          ''clowtown/pr-enforcer'' ''test'' 10 25 (Some ''enforce-all-checks'') None False False
          = Some r
      \<and> result r = Uncaught AttributeError \<and> polls r = 0"
  using hello_without_ignore [of 5 "\<lparr>connect_error = None, get_check_runs = all_green\<rparr>"
      "\<lparr>GITHUB_STEP_SUMMARY = None, open_fails = False\<rparr>"
      "''clowtown/pr-enforcer''" "''test''" 10 25 "Some ''enforce-all-checks''" False False]
  by blast

end
